theory Spec2Isabelle
  imports Complex_Main "HOL-Library.AList"
begin

section \<open>Python values shared by both scripts\<close>

text \<open>
  A Python \<open>dict\<close> keeps its keys in insertion order: assigning to a key that is
  present replaces the value in place, assigning to a new key appends it, and
  \<open>del\<close> removes the entry. An association list with \<open>AList.update\<close> and
  \<open>AList.delete\<close> behaves the same way; \<open>map_of\<close> is \<open>dict.get\<close>.
\<close>

type_synonym ('k, 'v) dict = "('k \<times> 'v) list"

text \<open>
  \<open>d.update(ps)\<close>, which is also what the unpacking \<open>{**d, **ps}\<close> builds: the
  entries of \<open>ps\<close> are stored left to right.
\<close>

definition dict_update_all :: "('k, 'v) dict \<Rightarrow> ('k \<times> 'v) list \<Rightarrow> ('k, 'v) dict" where
  "dict_update_all d ps = foldl (\<lambda>d (k, v). AList.update k v d) d ps"

text \<open>The comprehension \<open>{k: v for (k, v) in ps}\<close>.\<close>

definition dict_of :: "('k \<times> 'v) list \<Rightarrow> ('k, 'v) dict" where
  "dict_of ps = dict_update_all [] ps"

text \<open>The exceptions that the two scripts can raise.\<close>

datatype error =
    ValueError string
  | HTTPError string
  | OSError

subsection \<open>Formatting an integer with the format specification \<open>0Nd\<close>\<close>

definition digit_char :: "nat \<Rightarrow> char" where
  "digit_char d = char_of (48 + d)"

fun str_nat :: "nat \<Rightarrow> string" where
  "str_nat n = (if n < 10 then [digit_char n] else str_nat (n div 10) @ [digit_char (n mod 10)])"

declare str_nat.simps [simp del]

text \<open>
  \<open>format(i, "0Nd")\<close>: the sign (only \<open>-\<close> is ever printed), then zeros up to the
  minimal width \<open>N\<close>, then the decimal digits.
\<close>

definition format_0d :: "nat \<Rightarrow> int \<Rightarrow> string" where
  "format_0d width i =
     (let sign = (if i < 0 then ''-'' else '''');
          ds = str_nat (nat \<bar>i\<bar>)
      in sign @ replicate (width - length sign - length ds) (CHR ''0'') @ ds)"

section \<open>\<open>wrf_client.py\<close>: the configuration\<close>

record CodeConfig =
  name :: string
  code :: string

record ForecastScheduleConfig =
  name :: string
  hours :: "int list"

record LayerConfig =
  domain :: string
  variable :: string
  forecast_schedule :: string
  maptype :: string

text \<open>
  The four private fields \<open>_domains\<close>, \<open>_maptypes\<close>, \<open>_variables\<close> and
  \<open>_schedules\<close> are the memoised lookup tables; they are written \<open>memo_domains\<close>
  and so on, since an Isabelle name cannot start with an underscore.
\<close>

record WrfConfig =
  domain_codes :: "CodeConfig list"
  maptype_codes :: "CodeConfig list"
  variable_codes :: "CodeConfig list"
  forecast_schedules :: "ForecastScheduleConfig list"
  layers :: "LayerConfig list"
  memo_domains :: "(string, string) dict"
  memo_maptypes :: "(string, string) dict"
  memo_variables :: "(string, string) dict"
  memo_schedules :: "(string, int list) dict"

definition base_url :: string where
  "base_url = ''https://a.atmos.washington.edu/wrfrt/data/timeindep''"

text \<open>The constructor: the memo tables start as empty dictionaries (\<open>factory=dict\<close>).\<close>

definition WrfConfig_init ::
  "CodeConfig list \<Rightarrow> CodeConfig list \<Rightarrow> CodeConfig list \<Rightarrow>
   ForecastScheduleConfig list \<Rightarrow> LayerConfig list \<Rightarrow> WrfConfig" where
  "WrfConfig_init ds ms vs ss ls =
     \<lparr>domain_codes = ds, maptype_codes = ms, variable_codes = vs,
      forecast_schedules = ss, layers = ls,
      memo_domains = [], memo_maptypes = [], memo_variables = [], memo_schedules = []\<rparr>"

definition code_pairs :: "CodeConfig list \<Rightarrow> (string \<times> string) list" where
  "code_pairs cs = map (\<lambda>conf. (CodeConfig.name conf, code conf)) cs"

definition schedule_pairs :: "ForecastScheduleConfig list \<Rightarrow> (string \<times> int list) list" where
  "schedule_pairs cs = map (\<lambda>conf. (ForecastScheduleConfig.name conf, hours conf)) cs"

text \<open>
  Each lookup returns its result (\<open>Inl\<close> is the raised exception) together with the
  configuration, whose memo table the call may have filled.
\<close>

definition get_domain_code :: "string \<Rightarrow> WrfConfig \<Rightarrow> (error + string) \<times> WrfConfig" where
  "get_domain_code domain_name self =
     (let self' = (if memo_domains self = []
                   then self\<lparr>memo_domains := dict_of (code_pairs (domain_codes self))\<rparr>
                   else self)
      in case map_of (memo_domains self') domain_name of
           None \<Rightarrow> (Inl (ValueError (domain_name @ '' was not found'')), self')
         | Some c \<Rightarrow> (Inr c, self'))"

definition get_maptype_code :: "string \<Rightarrow> WrfConfig \<Rightarrow> (error + string) \<times> WrfConfig" where
  "get_maptype_code maptype_name self =
     (let self' = (if memo_maptypes self = []
                   then self\<lparr>memo_maptypes := dict_of (code_pairs (maptype_codes self))\<rparr>
                   else self)
      in case map_of (memo_maptypes self') maptype_name of
           None \<Rightarrow> (Inl (ValueError (maptype_name @ '' was not found'')), self')
         | Some c \<Rightarrow> (Inr c, self'))"

definition get_variable_code :: "string \<Rightarrow> WrfConfig \<Rightarrow> (error + string) \<times> WrfConfig" where
  "get_variable_code variable_name self =
     (let self' = (if memo_variables self = []
                   then self\<lparr>memo_variables := dict_of (code_pairs (variable_codes self))\<rparr>
                   else self)
      in case map_of (memo_variables self') variable_name of
           None \<Rightarrow> (Inl (ValueError (variable_name @ '' was not found'')), self')
         | Some c \<Rightarrow> (Inr c, self'))"

definition get_forecast_hours :: "string \<Rightarrow> WrfConfig \<Rightarrow> (error + int list) \<times> WrfConfig" where
  "get_forecast_hours schedule_name self =
     (let self' = (if memo_schedules self = []
                   then self\<lparr>memo_schedules := dict_of (schedule_pairs (forecast_schedules self))\<rparr>
                   else self)
      in case map_of (memo_schedules self') schedule_name of
           None \<Rightarrow> (Inl (ValueError (schedule_name @ '' was not found'')), self')
         | Some c \<Rightarrow> (Inr c, self'))"

text \<open>The f-string at the end of \<open>build_url\<close>.\<close>

definition url_string :: "string \<Rightarrow> string \<Rightarrow> string \<Rightarrow> int \<Rightarrow> string" where
  "url_string domain_code maptype_code variable_code hour =
     base_url @ ''/images_'' @ domain_code @ ''/'' @ maptype_code @ variable_code
       @ ''.'' @ format_0d 2 hour @ ''.0000.gif''"

text \<open>
  \<open>build_url\<close>: the optional argument \<open>maptype\<close> is \<open>None\<close> when omitted. The three
  lookups run in the source's order, and the first one to raise ends the call.
\<close>

definition build_url ::
  "string \<Rightarrow> string \<Rightarrow> int \<Rightarrow> string option \<Rightarrow> WrfConfig \<Rightarrow> (error + string) \<times> WrfConfig" where
  "build_url d v hour mt self =
     (case get_domain_code d self of
        (Inl e, s1) \<Rightarrow> (Inl e, s1)
      | (Inr domain_code, s1) \<Rightarrow>
          (case (case mt of Some m \<Rightarrow> get_maptype_code m s1 | None \<Rightarrow> (Inr '''', s1)) of
             (Inl e, s2) \<Rightarrow> (Inl e, s2)
           | (Inr maptype_code, s2) \<Rightarrow>
               (case get_variable_code v s2 of
                  (Inl e, s3) \<Rightarrow> (Inl e, s3)
                | (Inr variable_code, s3) \<Rightarrow>
                    (Inr (url_string domain_code maptype_code variable_code hour), s3))))"

text \<open>
  The memo tables of a configuration are sound when each is either still empty or the
  dictionary built from its list: nothing in the program changes the lists after
  loading, so every reachable configuration is of this form.
\<close>

definition memo_ok :: "WrfConfig \<Rightarrow> bool" where
  "memo_ok c \<longleftrightarrow>
     (memo_domains c = [] \<or> memo_domains c = dict_of (code_pairs (domain_codes c))) \<and>
     (memo_maptypes c = [] \<or> memo_maptypes c = dict_of (code_pairs (maptype_codes c))) \<and>
     (memo_variables c = [] \<or> memo_variables c = dict_of (code_pairs (variable_codes c))) \<and>
     (memo_schedules c = [] \<or> memo_schedules c = dict_of (schedule_pairs (forecast_schedules c)))"

section \<open>\<open>wrf_client.py\<close>: the download loop\<close>

text \<open>
  A \<open>Path\<close> (a \<open>PosixPath\<close>) is the list of its \<open>parts\<close>: the root \<open>/\<close> or \<open>//\<close>
  first when the path is absolute, then the names. The path with no parts is the
  current directory. \<open>p / s\<close> parses the string \<open>s\<close> as \<open>pathlib\<close> does: it is cut
  at every \<open>/\<close>, the empty pieces and the pieces \<open>.\<close> are dropped (a piece \<open>..\<close> is
  kept), and when \<open>s\<close> starts with \<open>/\<close> the result starts again at the root of \<open>s\<close>.
\<close>

type_synonym path = "string list"

text \<open>\<open>s.split('/')\<close>.\<close>

fun split_slash :: "string \<Rightarrow> string list" where
  "split_slash [] = [[]]"
| "split_slash (c # cs) =
     (if c = CHR ''/'' then [] # split_slash cs
      else case split_slash cs of [] \<Rightarrow> [[c]] | x # xs \<Rightarrow> (c # x) # xs)"

text \<open>The root that \<open>posixpath.splitroot\<close> finds: two leading slashes, but not three, are kept.\<close>

definition path_root :: "string \<Rightarrow> string" where
  "path_root s =
     (if take 1 s \<noteq> ''/'' then []
      else if take 2 s = ''//'' \<and> take 3 s \<noteq> ''///'' then ''//''
      else ''/'')"

definition path_segments :: "string \<Rightarrow> string list" where
  "path_segments s = filter (\<lambda>x. x \<noteq> [] \<and> x \<noteq> ''.'') (split_slash s)"

definition path_join :: "path \<Rightarrow> string \<Rightarrow> path" where
  "path_join p s =
     (if path_root s = [] then p @ path_segments s else path_root s # path_segments s)"

text \<open>The current directory and the roots: they always exist, and are their own parent.\<close>

definition is_anchor :: "path \<Rightarrow> bool" where
  "is_anchor p \<longleftrightarrow> p = [] \<or> p = [''/''] \<or> p = [''//'']"

definition path_parent :: "path \<Rightarrow> path" where
  "path_parent p = (if is_anchor p then p else butlast p)"

text \<open>
  The file system maps a path to what is stored there. It is consulted with the path as
  \<open>pathlib\<close> holds it: that two different paths may lead to one file, through \<open>..\<close> or
  a symbolic link, is outside the model.
\<close>

type_synonym bytes = "nat list"

datatype node = File bytes | Dir

type_synonym filesystem = "path \<Rightarrow> node option"

text \<open>\<open>Path.exists\<close> is true of a directory as well as of a file.\<close>

definition path_exists :: "filesystem \<Rightarrow> path \<Rightarrow> bool" where
  "path_exists fs p \<longleftrightarrow> is_anchor p \<or> fs p \<noteq> None"

text \<open>
  \<open>Path.mkdir(exist_ok=True, parents=True)\<close>: an existing directory is accepted,
  anything else at the path raises, and a missing path is created after its parent.
\<close>

function mkdir_parents :: "path \<Rightarrow> filesystem \<Rightarrow> error + filesystem" where
  "mkdir_parents p fs =
     (if is_anchor p then Inr fs
      else case fs p of
             Some Dir \<Rightarrow> Inr fs
           | Some (File b) \<Rightarrow> Inl OSError
           | None \<Rightarrow>
               (case mkdir_parents (butlast p) fs of
                  Inl e \<Rightarrow> Inl e
                | Inr fs' \<Rightarrow> Inr (fs'(p \<mapsto> Dir))))"
  by pat_completeness auto
termination
  by (relation "measure (\<lambda>(p, fs). length p)") (auto simp: is_anchor_def)

declare mkdir_parents.simps [simp del]

text \<open>
  The HTTP client is a parameter: \<open>client url\<close> is what \<open>self._client.get(url)\<close>
  gives, either an exception of the transport or a response, whose \<open>is_success\<close>
  is what \<open>raise_for_status\<close> tests.
\<close>

record Response =
  is_success :: bool
  content :: bytes

type_synonym http_client = "string \<Rightarrow> error + Response"

text \<open>
  The world outside the process: the file system, and the addresses requested from
  the remote server so far, oldest first.
\<close>

record world =
  files :: filesystem
  requests :: "string list"

definition gif_output_path :: "path \<Rightarrow> LayerConfig \<Rightarrow> int \<Rightarrow> path" where
  "gif_output_path output_path layer fx_hour =
     path_join (path_join (path_join output_path (domain layer)) (variable layer))
       (''hour'' @ format_0d 2 fx_hour @ ''.gif'')"

text \<open>
  The body of the \<open>for\<close> loop of \<open>download_layer\<close>, for one hour. \<open>Inr ()\<close> means
  that the loop goes on (after \<open>continue\<close>, or at the end of the body); \<open>Inl\<close> is an
  exception, which leaves the loop and the call.
\<close>

definition download_hour ::
  "http_client \<Rightarrow> LayerConfig \<Rightarrow> path \<Rightarrow> int \<Rightarrow> WrfConfig \<Rightarrow> world
   \<Rightarrow> (error + unit) \<times> WrfConfig \<times> world" where
  "download_hour client layer output_path fx_hour cfg w =
     (let target = gif_output_path output_path layer fx_hour in
      if path_exists (files w) target then (Inr (), cfg, w)
      else case mkdir_parents (path_parent target) (files w) of
             Inl e \<Rightarrow> (Inl e, cfg, w)
           | Inr fs1 \<Rightarrow>
               (case build_url (domain layer) (variable layer) fx_hour (Some (maptype layer)) cfg of
                  (Inl e, cfg1) \<Rightarrow> (Inl e, cfg1, w\<lparr>files := fs1\<rparr>)
                | (Inr image_url, cfg1) \<Rightarrow>
                    (let w1 = w\<lparr>files := fs1, requests := requests w @ [image_url]\<rparr> in
                     case client image_url of
                       Inl e \<Rightarrow> (Inl e, cfg1, w1)
                     | Inr r \<Rightarrow>
                         if \<not> is_success r then (Inl (HTTPError image_url), cfg1, w1)
                         else (Inr (), cfg1,
                               w1\<lparr>files := (files w1)(target \<mapsto> File (content r))\<rparr>))))"

text \<open>The loop itself, over the hours still to visit.\<close>

fun download_hours ::
  "http_client \<Rightarrow> LayerConfig \<Rightarrow> path \<Rightarrow> int list \<Rightarrow> WrfConfig \<Rightarrow> world
   \<Rightarrow> (error + unit) \<times> WrfConfig \<times> world" where
  "download_hours client layer output_path [] cfg w = (Inr (), cfg, w)"
| "download_hours client layer output_path (fx_hour # rest) cfg w =
     (case download_hour client layer output_path fx_hour cfg w of
        (Inl e, cfg1, w1) \<Rightarrow> (Inl e, cfg1, w1)
      | (Inr u, cfg1, w1) \<Rightarrow> download_hours client layer output_path rest cfg1 w1)"


section \<open>\<open>annotation.py\<close>: the annotation store\<close>

text \<open>
  The values stored in a point or an annotation (\<open>Any\<close> in the source): strings,
  integers and floats. The store only keeps and compares them.
\<close>

datatype pyval = PyStr string | PyInt int | PyFloat real

type_synonym annotation = "(string, pyval) dict"

type_synonym annotations_doc = "(string, (string, annotation list) dict) dict"

type_synonym points_doc = "(string, (string, pyval) dict) dict"

text \<open>
  The state of an \<open>AnnotationManager\<close>, and with it the documents that \<open>save\<close> has
  written to \<open>yaml_path\<close>, oldest first: each is the pair of the sections
  \<open>geographic_points\<close> and \<open>domains\<close>, and the last one is the content of the file.
\<close>

record AnnotationManager =
  annotations :: annotations_doc
  geographic_points :: points_doc
  written :: "(points_doc \<times> annotations_doc) list"

text \<open>The dictionary that \<open>save\<close> hands to \<open>yaml.dump\<close>: the whole in-memory state.\<close>

definition document :: "AnnotationManager \<Rightarrow> points_doc \<times> annotations_doc" where
  "document self = (geographic_points self, annotations self)"

definition save :: "AnnotationManager \<Rightarrow> AnnotationManager" where
  "save self = self\<lparr>written := written self @ [document self]\<rparr>"

definition point_record :: "string \<Rightarrow> real \<Rightarrow> real \<Rightarrow> (string, pyval) dict" where
  "point_record nm lat lon =
     [(''name'', PyStr nm), (''latitude'', PyFloat lat), (''longitude'', PyFloat lon)]"



definition remove_geographic_point :: "string \<Rightarrow> AnnotationManager \<Rightarrow> AnnotationManager" where
  "remove_geographic_point key self =
     (if map_of (geographic_points self) key \<noteq> None
      then save (self\<lparr>geographic_points := AList.delete key (geographic_points self)\<rparr>)
      else self)"

definition get_annotations :: "string \<Rightarrow> string \<Rightarrow> AnnotationManager \<Rightarrow> annotation list" where
  "get_annotations dmn img self =
     (case map_of (annotations self) dmn of
        None \<Rightarrow> []
      | Some imgs \<Rightarrow> (case map_of imgs img of None \<Rightarrow> [] | Some anns \<Rightarrow> anns))"

definition set_annotations ::
  "string \<Rightarrow> string \<Rightarrow> annotation list \<Rightarrow> AnnotationManager \<Rightarrow> AnnotationManager" where
  "set_annotations dmn img anns self =
     (let a1 = (if map_of (annotations self) dmn = None
                then AList.update dmn [] (annotations self)
                else annotations self);
          imgs = (case map_of a1 dmn of None \<Rightarrow> [] | Some im \<Rightarrow> im)
      in save (self\<lparr>annotations := AList.update dmn (AList.update img anns imgs) a1\<rparr>))"

definition add_annotation ::
  "string \<Rightarrow> string \<Rightarrow> annotation \<Rightarrow> AnnotationManager \<Rightarrow> AnnotationManager" where
  "add_annotation dmn img ann self =
     set_annotations dmn img (get_annotations dmn img self @ [ann]) self"

text \<open>\<open>xs.pop(i)\<close> for an index within range.\<close>

definition list_pop :: "nat \<Rightarrow> 'a list \<Rightarrow> 'a list" where
  "list_pop i xs = take i xs @ drop (Suc i) xs"

definition remove_annotation ::
  "string \<Rightarrow> string \<Rightarrow> int \<Rightarrow> AnnotationManager \<Rightarrow> AnnotationManager" where
  "remove_annotation dmn img index self =
     (let anns = get_annotations dmn img self in
      if 0 \<le> index \<and> index < int (length anns)
      then set_annotations dmn img (list_pop (nat index) anns) self
      else self)"

definition update_annotation ::
  "string \<Rightarrow> string \<Rightarrow> int \<Rightarrow> annotation \<Rightarrow> AnnotationManager \<Rightarrow> AnnotationManager" where
  "update_annotation dmn img index ann self =
     (let anns = get_annotations dmn img self in
      if 0 \<le> index \<and> index < int (length anns)
      then set_annotations dmn img (anns[nat index := ann]) self
      else self)"

definition tagged :: "string \<Rightarrow> string \<Rightarrow> nat \<Rightarrow> annotation \<Rightarrow> annotation" where
  "tagged dmn img idx ann =
     dict_update_all
       [(''domain'', PyStr dmn), (''image'', PyStr img), (''index'', PyInt (int idx))] ann"

definition get_all_annotations :: "AnnotationManager \<Rightarrow> annotation list" where
  "get_all_annotations self =
     concat (map (\<lambda>(dmn, imgs).
        concat (map (\<lambda>(img, anns).
           map (\<lambda>(idx, ann). tagged dmn img idx ann) (enumerate 0 anns)) imgs))
        (annotations self))"

section \<open>Notions used to state the properties\<close>

text \<open>
  What a list of named entries assigns to a name, read off the list itself: the value of
  the last entry with that name, if there is one.
\<close>

definition last_named :: "'k \<Rightarrow> ('k \<times> 'v) list \<Rightarrow> 'v option" where
  "last_named k ps =
     (let qs = filter (\<lambda>p. fst p = k) ps in if qs = [] then None else Some (snd (last qs)))"

text \<open>Reading a decimal numeral back, to show that formatting loses nothing.\<close>

definition digit_val :: "char \<Rightarrow> nat" where
  "digit_val c = of_char c - 48"

definition decimal_val :: "string \<Rightarrow> nat" where
  "decimal_val s = foldl (\<lambda>a c. 10 * a + digit_val c) 0 s"


text \<open>A configuration in which every table has two entries of the same name.\<close>

definition example_config :: WrfConfig where
  "example_config = WrfConfig_init
     [\<lparr>CodeConfig.name = ''d1'', code = ''d00''\<rparr>, \<lparr>CodeConfig.name = ''d2'', code = ''d02''\<rparr>,
      \<lparr>CodeConfig.name = ''d1'', code = ''d01''\<rparr>]
     [\<lparr>CodeConfig.name = ''m1'', code = ''old''\<rparr>, \<lparr>CodeConfig.name = ''m1'', code = ''ww''\<rparr>]
     [\<lparr>CodeConfig.name = ''v1'', code = ''old''\<rparr>, \<lparr>CodeConfig.name = ''v1'', code = ''tp''\<rparr>]
     [\<lparr>ForecastScheduleConfig.name = ''s1'', hours = [6]\<rparr>,
      \<lparr>ForecastScheduleConfig.name = ''s1'', hours = [0, 12]\<rparr>]
     [\<lparr>domain = ''d1'', variable = ''v1'', forecast_schedule = ''s1'', maptype = ''m1''\<rparr>]"

text \<open>Two configurations with the same lists; the memo tables may differ.\<close>

definition same_tables :: "WrfConfig \<Rightarrow> WrfConfig \<Rightarrow> bool" where
  "same_tables c c' \<longleftrightarrow>
     domain_codes c = domain_codes c' \<and> maptype_codes c = maptype_codes c' \<and>
     variable_codes c = variable_codes c' \<and> forecast_schedules c = forecast_schedules c' \<and>
     layers c = layers c'"










text \<open>
  The keys of a Python dictionary are pairwise different. For the store this is the case
  at each level: the domains, the images of a domain, and the fields of an annotation.
\<close>

definition store_ok :: "AnnotationManager \<Rightarrow> bool" where
  "store_ok s \<longleftrightarrow>
     distinct (map fst (annotations s)) \<and>
     list_all (\<lambda>(dmn, imgs).
        distinct (map fst imgs) \<and>
        list_all (\<lambda>(img, anns). list_all (\<lambda>ann. distinct (map fst ann)) anns) imgs)
       (annotations s)"

text \<open>The three fields that \<open>get_all_annotations\<close> adds to each annotation.\<close>

definition reserved_keys :: "string list" where
  "reserved_keys = [''domain'', ''image'', ''index'']"

definition no_reserved :: "AnnotationManager \<Rightarrow> bool" where
  "no_reserved s \<longleftrightarrow>
     list_all (\<lambda>(dmn, imgs).
        list_all (\<lambda>(img, anns).
           list_all (\<lambda>ann. list_all (\<lambda>k. k \<notin> set reserved_keys) (map fst ann)) anns) imgs)
       (annotations s)"

text \<open>The (domain, image, index) that an element of the flattened list carries.\<close>

definition address :: "annotation \<Rightarrow> pyval option \<times> pyval option \<times> pyval option" where
  "address e = (map_of e ''domain'', map_of e ''image'', map_of e ''index'')"

text \<open>
  Every position of every annotation list of the store: domains in dictionary order,
  then the images of the domain in dictionary order, then the positions from 0 upwards.
\<close>

definition addresses :: "AnnotationManager \<Rightarrow> (string \<times> string \<times> nat) list" where
  "addresses s =
     concat (map (\<lambda>(dmn, imgs).
        concat (map (\<lambda>(img, anns). map (\<lambda>k. (dmn, img, k)) [0..<length anns]) imgs))
        (annotations s))"

definition total_annotations :: "AnnotationManager \<Rightarrow> nat" where
  "total_annotations s =
     sum_list (map (\<lambda>(dmn, imgs). sum_list (map (\<lambda>(img, anns). length anns) imgs))
                 (annotations s))"


text \<open>A store with one point and two annotations that refer to it.\<close>

definition example_store :: AnnotationManager where
  "example_store =
     \<lparr>annotations =
        [(''d01'', [(''a.gif'',
            [[(''pixel_x'', PyInt 10), (''pixel_y'', PyInt 20), (''point'', PyStr ''sea'')],
             [(''pixel_x'', PyInt 30), (''pixel_y'', PyInt 40), (''point'', PyStr ''sea'')]])])],
      geographic_points = [(''sea'', point_record ''Seattle'' 47 (-122))],
      written = []\<rparr>"

text \<open>A store whose annotations have a field named \<open>index\<close> of their own.\<close>

definition clash_store :: AnnotationManager where
  "clash_store =
     \<lparr>annotations =
        [(''d01'', [(''a.gif'', [[(''index'', PyInt 5)], [(''index'', PyInt 5)]])])],
      geographic_points = [],
      written = []\<rparr>"

section \<open>Dictionaries built from lists\<close>

lemma map_of_dict_update_all:
  "map_of (dict_update_all d ps) k =
     (case map_of (rev ps) k of None \<Rightarrow> map_of d k | Some v \<Rightarrow> Some v)"
  unfolding dict_update_all_def
proof (induction ps arbitrary: d)
  case Nil
  show ?case by simp
next
  case (Cons p ps)
  obtain a b where p: "p = (a, b)" by (cases p)
  show ?case
    by (simp add: Cons.IH p map_of_append update_conv' map_add_def split: option.splits)
qed

lemma map_of_rev_last_named: "map_of (rev ps) k = last_named k ps"
  unfolding last_named_def
  by (induction ps rule: rev_induct) (auto simp: Let_def)

lemma map_of_dict_of: "map_of (dict_of ps) k = last_named k ps"
  by (simp add: dict_of_def map_of_dict_update_all map_of_rev_last_named split: option.splits)

lemma dict_of_Nil: "dict_of [] = []"
  by (simp add: dict_of_def dict_update_all_def)

lemma last_named_None: "last_named k ps = None \<longleftrightarrow> k \<notin> fst ` set ps"
  by (auto simp: last_named_def Let_def filter_empty_conv)

lemma last_named_append: "k \<notin> fst ` set ys \<Longrightarrow> last_named k (xs @ (k, v) # ys) = Some v"
  by (auto simp: last_named_def Let_def filter_empty_conv)

section \<open>The format \<open>02d\<close>\<close>

lemma digit_val_digit_char: "d < 10 \<Longrightarrow> digit_val (digit_char d) = d"
  by (simp add: digit_val_def digit_char_def)


lemma digit_char_0: "digit_char 0 = CHR ''0''"
  by code_simp

lemma decimal_val_snoc: "decimal_val (s @ [c]) = 10 * decimal_val s + digit_val c"
  by (simp add: decimal_val_def)

lemma decimal_val_str_nat: "decimal_val (str_nat n) = n"
proof (induction n rule: str_nat.induct)
  case (1 n)
  show ?case
  proof (cases "n < 10")
    case True
    then show ?thesis
      by (simp add: str_nat.simps [of n] decimal_val_def digit_val_digit_char)
  next
    case False
    with 1 have "decimal_val (str_nat (n div 10)) = n div 10" by simp
    with False show ?thesis
      by (simp add: str_nat.simps [of n] decimal_val_snoc digit_val_digit_char)
  qed
qed

lemma str_nat_nonempty: "str_nat n \<noteq> []"
  by (simp add: str_nat.simps [of n])





lemma format_0d_two_digits:
  "0 \<le> h \<Longrightarrow> h < 100 \<Longrightarrow> format_0d 2 h = [digit_char (nat h div 10), digit_char (nat h mod 10)]"
proof -
  assume h: "0 \<le> h" "h < 100"
  show ?thesis
  proof (cases "h < 10")
    case True
    with h have "nat h div 10 = 0" "nat h mod 10 = nat h" "nat h < 10" by simp_all
    then show ?thesis
      using h by (simp add: format_0d_def Let_def digit_char_0 str_nat.simps [of "nat h"])
  next
    case False
    with h have "nat h div 10 < 10" by simp
    with False h show ?thesis
      by (simp add: format_0d_def Let_def str_nat.simps [of "nat h"] str_nat.simps [of "nat h div 10"])
  qed
qed

lemma of_char_digit_char: "d < 10 \<Longrightarrow> (of_char (digit_char d) :: nat) = 48 + d"
  by (simp add: digit_char_def)

lemma str_nat_digits: "ch \<in> set (str_nat n) \<Longrightarrow> 48 \<le> (of_char ch :: nat) \<and> (of_char ch :: nat) \<le> 57"
proof (induction n arbitrary: ch rule: str_nat.induct)
  case (1 n)
  have d: "(of_char (digit_char (n mod 10)) :: nat) = 48 + n mod 10"
    by (simp add: of_char_digit_char)
  show ?case
  proof (cases "n < 10")
    case True
    with 1(2) d show ?thesis
      by (auto simp: str_nat.simps [of n])
  next
    case False
    with 1 d show ?thesis
      by (auto simp: str_nat.simps [of n])
  qed
qed

lemma str_nat_value: "foldl (\<lambda>a ch. 10 * a + (of_char ch - 48)) (0::nat) (str_nat n) = n"
  using decimal_val_str_nat [of n] by (simp add: decimal_val_def digit_val_def)

lemma str_nat_zero: "str_nat 0 = ''0''"
  by (simp add: str_nat.simps [of 0] digit_char_0)

lemma digit_char_inj:
  assumes "a < 10" and "b < 10" and "digit_char a = digit_char b"
  shows "a = b"
proof -
  from assms(3) have "(of_char (digit_char a) :: nat) = of_char (digit_char b)"
    by (rule arg_cong)
  then have "48 + a = 48 + b"
    by (simp only: of_char_digit_char [OF assms(1)] of_char_digit_char [OF assms(2)])
  then show ?thesis by simp
qed

lemma str_nat_canonical: "hd (str_nat n) = CHR ''0'' \<Longrightarrow> n = 0"
proof (induction n rule: str_nat.induct)
  case (1 n)
  show ?case
  proof (cases "n < 10")
    case True
    with 1(2) have "digit_char n = digit_char 0"
      by (simp add: str_nat.simps [of n] digit_char_0)
    with True show ?thesis by (intro digit_char_inj [of n 0]) simp_all
  next
    case False
    with 1(2) have "hd (str_nat (n div 10)) = CHR ''0''"
      by (simp add: str_nat.simps [of n] str_nat_nonempty)
    with 1(1) False have "n div 10 = 0" by simp
    with False show ?thesis by simp
  qed
qed

lemma format_0d_chars:
  "format_0d w h = (if h < 0 then ''-'' else []) @
     replicate (w - (if h < 0 then 1 else 0) - length (str_nat (nat \<bar>h\<bar>))) (CHR ''0'') @
     str_nat (nat \<bar>h\<bar>)"
  by (simp add: format_0d_def Let_def)

lemma format_0d_two_chars:
  "0 \<le> h \<Longrightarrow> h < 100 \<Longrightarrow>
   format_0d 2 h = [char_of (48 + nat h div 10), char_of (48 + nat h mod 10)]"
  by (simp add: format_0d_two_digits digit_char_def)

lemma char_of_examples: "char_of (48::nat) = CHR ''0''" "char_of (51::nat) = CHR ''3''"
  by code_simp+

section \<open>Resolving names\<close>

lemma fst_code_pairs: "fst ` set (code_pairs cs) = CodeConfig.name ` set cs"
  by (auto simp: code_pairs_def image_iff)

lemma fst_schedule_pairs: "fst ` set (schedule_pairs cs) = ForecastScheduleConfig.name ` set cs"
  by (auto simp: schedule_pairs_def image_iff)

lemma get_domain_code_fst:
  "memo_ok c \<Longrightarrow> fst (get_domain_code n c) =
     (case last_named n (code_pairs (domain_codes c)) of
        None \<Rightarrow> Inl (ValueError (n @ '' was not found'')) | Some x \<Rightarrow> Inr x)"
  by (auto simp: get_domain_code_def memo_ok_def Let_def map_of_dict_of dict_of_Nil
      split: option.splits)

lemma get_maptype_code_fst:
  "memo_ok c \<Longrightarrow> fst (get_maptype_code n c) =
     (case last_named n (code_pairs (maptype_codes c)) of
        None \<Rightarrow> Inl (ValueError (n @ '' was not found'')) | Some x \<Rightarrow> Inr x)"
  by (auto simp: get_maptype_code_def memo_ok_def Let_def map_of_dict_of dict_of_Nil
      split: option.splits)

lemma get_variable_code_fst:
  "memo_ok c \<Longrightarrow> fst (get_variable_code n c) =
     (case last_named n (code_pairs (variable_codes c)) of
        None \<Rightarrow> Inl (ValueError (n @ '' was not found'')) | Some x \<Rightarrow> Inr x)"
  by (auto simp: get_variable_code_def memo_ok_def Let_def map_of_dict_of dict_of_Nil
      split: option.splits)

lemma get_forecast_hours_fst:
  "memo_ok c \<Longrightarrow> fst (get_forecast_hours n c) =
     (case last_named n (schedule_pairs (forecast_schedules c)) of
        None \<Rightarrow> Inl (ValueError (n @ '' was not found'')) | Some x \<Rightarrow> Inr x)"
  by (auto simp: get_forecast_hours_def memo_ok_def Let_def map_of_dict_of dict_of_Nil
      split: option.splits)

lemma get_domain_code_snd:
  "snd (get_domain_code n c) = c \<or>
   snd (get_domain_code n c) = c\<lparr>memo_domains := dict_of (code_pairs (domain_codes c))\<rparr>"
  by (simp add: get_domain_code_def Let_def split: option.splits)

lemma get_maptype_code_snd:
  "snd (get_maptype_code n c) = c \<or>
   snd (get_maptype_code n c) = c\<lparr>memo_maptypes := dict_of (code_pairs (maptype_codes c))\<rparr>"
  by (simp add: get_maptype_code_def Let_def split: option.splits)

lemma get_variable_code_snd:
  "snd (get_variable_code n c) = c \<or>
   snd (get_variable_code n c) = c\<lparr>memo_variables := dict_of (code_pairs (variable_codes c))\<rparr>"
  by (simp add: get_variable_code_def Let_def split: option.splits)

lemma get_forecast_hours_snd:
  "snd (get_forecast_hours n c) = c \<or>
   snd (get_forecast_hours n c) = c\<lparr>memo_schedules := dict_of (schedule_pairs (forecast_schedules c))\<rparr>"
  by (simp add: get_forecast_hours_def Let_def split: option.splits)

lemma get_maptype_code_after_domain:
  "fst (get_maptype_code m (snd (get_domain_code d c))) = fst (get_maptype_code m c)"
  using get_domain_code_snd [of d c]
  by (auto simp: get_maptype_code_def Let_def split: option.splits)

lemma get_variable_code_after_domain:
  "fst (get_variable_code v (snd (get_domain_code d c))) = fst (get_variable_code v c)"
  using get_domain_code_snd [of d c]
  by (auto simp: get_variable_code_def Let_def split: option.splits)

lemma get_variable_code_after_maptype:
  "fst (get_variable_code v (snd (get_maptype_code m c))) = fst (get_variable_code v c)"
  using get_maptype_code_snd [of m c]
  by (auto simp: get_variable_code_def Let_def split: option.splits)

lemma build_url_fst:
  "fst (build_url d v h mt c) =
     (case fst (get_domain_code d c) of
        Inl e \<Rightarrow> Inl e
      | Inr dc \<Rightarrow>
          (case (case mt of None \<Rightarrow> Inr '''' | Some m \<Rightarrow> fst (get_maptype_code m c)) of
             Inl e \<Rightarrow> Inl e
           | Inr mc \<Rightarrow>
               (case fst (get_variable_code v c) of
                  Inl e \<Rightarrow> Inl e
                | Inr vc \<Rightarrow> Inr (url_string dc mc vc h))))"
proof -
  obtain r1 s1 where g1: "get_domain_code d c = (r1, s1)" by (cases "get_domain_code d c")
  then have s1: "s1 = snd (get_domain_code d c)" by simp
  show ?thesis
  proof (cases mt)
    case None
    have "fst (get_variable_code v s1) = fst (get_variable_code v c)"
      by (simp add: s1 get_variable_code_after_domain)
    with g1 None show ?thesis
      by (auto simp: build_url_def split: sum.splits prod.splits)
  next
    case (Some m)
    obtain r2 s2 where g2: "get_maptype_code m s1 = (r2, s2)" by (cases "get_maptype_code m s1")
    have r2: "r2 = fst (get_maptype_code m c)"
      using g2 get_maptype_code_after_domain [of m d c] by (simp add: s1)
    have "fst (get_variable_code v s2) = fst (get_variable_code v s1)"
      using g2 get_variable_code_after_maptype [of v m s1] by simp
    then have "fst (get_variable_code v s2) = fst (get_variable_code v c)"
      by (simp add: s1 get_variable_code_after_domain)
    with g1 g2 r2 Some show ?thesis
      by (auto simp: build_url_def split: sum.splits prod.splits)
  qed
qed

lemma memo_ok_init: "memo_ok (WrfConfig_init ds ms vs ss ls)"
  by (simp add: memo_ok_def WrfConfig_init_def)

lemma distinct_dict_update_all:
  "distinct (map fst d) \<Longrightarrow> distinct (map fst (dict_update_all d ps))"
  unfolding dict_update_all_def
  by (induction ps arbitrary: d) (auto simp: distinct_update split: prod.splits)

lemma distinct_dict_of: "distinct (map fst (dict_of ps))"
  by (simp add: dict_of_def distinct_dict_update_all)

lemma example_domain: "fst (get_domain_code ''d1'' example_config) = Inr ''d01''"
  by (simp add: get_domain_code_def example_config_def WrfConfig_init_def Let_def dict_of_def
      dict_update_all_def code_pairs_def)

lemma example_variable: "fst (get_variable_code ''v1'' example_config) = Inr ''tp''"
  by (simp add: get_variable_code_def example_config_def WrfConfig_init_def Let_def dict_of_def
      dict_update_all_def code_pairs_def)

lemma example_maptype: "fst (get_maptype_code ''m1'' example_config) = Inr ''ww''"
  by (simp add: get_maptype_code_def example_config_def WrfConfig_init_def Let_def dict_of_def
      dict_update_all_def code_pairs_def)

lemma example_maptype_empty:
  "fst (get_maptype_code '''' example_config) = Inl (ValueError '' was not found'')"
  by (simp add: get_maptype_code_def example_config_def WrfConfig_init_def Let_def dict_of_def
      dict_update_all_def code_pairs_def)

lemma last_named_code_pairs:
  "CodeConfig.name e \<notin> CodeConfig.name ` set ys \<Longrightarrow>
   last_named (CodeConfig.name e) (code_pairs (xs @ e # ys)) = Some (code e)"
  using last_named_append [of "CodeConfig.name e" "code_pairs ys" "code_pairs xs" "code e"]
  by (simp add: fst_code_pairs) (simp add: code_pairs_def)

lemma last_named_schedule_pairs:
  "ForecastScheduleConfig.name e \<notin> ForecastScheduleConfig.name ` set ys \<Longrightarrow>
   last_named (ForecastScheduleConfig.name e) (schedule_pairs (xs @ e # ys)) = Some (hours e)"
  using last_named_append [of "ForecastScheduleConfig.name e" "schedule_pairs ys"
      "schedule_pairs xs" "hours e"]
  by (simp add: fst_schedule_pairs) (simp add: schedule_pairs_def)

lemma memo_domains_distinct:
  "memo_ok c \<Longrightarrow> distinct (map fst (memo_domains (snd (get_domain_code n c))))"
  using get_domain_code_snd [of n c] by (auto simp: memo_ok_def distinct_dict_of)

lemma memo_maptypes_distinct:
  "memo_ok c \<Longrightarrow> distinct (map fst (memo_maptypes (snd (get_maptype_code n c))))"
  using get_maptype_code_snd [of n c] by (auto simp: memo_ok_def distinct_dict_of)

lemma memo_variables_distinct:
  "memo_ok c \<Longrightarrow> distinct (map fst (memo_variables (snd (get_variable_code n c))))"
  using get_variable_code_snd [of n c] by (auto simp: memo_ok_def distinct_dict_of)

lemma memo_schedules_distinct:
  "memo_ok c \<Longrightarrow> distinct (map fst (memo_schedules (snd (get_forecast_hours n c))))"
  using get_forecast_hours_snd [of n c] by (auto simp: memo_ok_def distinct_dict_of)

section \<open>Properties of the resolver\<close>

text \<open>
  C1 (as amended). For a domain and a variable that resolve, \<open>build_url\<close> with the
  maptype omitted gives the address with an empty maptype segment. An empty-string
  maptype is not treated as omitted: the guard is \<open>maptype is not None\<close>, so the
  empty name is looked up in the maptype table like any other name. The two calls
  therefore agree exactly when that lookup yields the empty code; otherwise the second
  call raises or carries the code found.
\<close>

theorem build_url_maptype_omitted:
  assumes "fst (get_domain_code d c) = Inr dc"
    and "fst (get_variable_code v c) = Inr vc"
  shows "fst (build_url d v h None c) = Inr (url_string dc '''' vc h) \<and>
         fst (build_url d v h (Some '''') c) =
           (case fst (get_maptype_code '''' c) of
              Inl e \<Rightarrow> Inl e | Inr mc \<Rightarrow> Inr (url_string dc mc vc h)) \<and>
         (fst (build_url d v h None c) = fst (build_url d v h (Some '''') c)
            \<longleftrightarrow> fst (get_maptype_code '''' c) = Inr '''')"
  using assms
  by (auto simp: build_url_fst url_string_def split: sum.splits)

theorem build_url_maptype_omitted_witness:
  "fst (build_url ''d1'' ''v1'' 3 None example_config) = Inr (url_string ''d01'' '''' ''tp'' 3) \<and>
   fst (build_url ''d1'' ''v1'' 3 (Some '''') example_config) = Inl (ValueError '' was not found'')"
  using build_url_maptype_omitted [OF example_domain example_variable, of 3]
  by (simp add: example_maptype_empty)

text \<open>
  C1 as stated fails: in \<open>example_config\<close> the names \<open>d1\<close> and \<open>v1\<close> resolve, the
  maptype table has no entry for the empty name, and the call with an empty-string
  maptype raises while the call without maptype returns an address.
\<close>

theorem build_url_empty_maptype_counterexample:
  "fst (build_url ''d1'' ''v1'' 3 None example_config) \<noteq>
   fst (build_url ''d1'' ''v1'' 3 (Some '''') example_config)"
  by (simp add: build_url_fst example_domain example_variable example_maptype_empty)

text \<open>
  C5. When domain, variable and maptype resolve to the codes \<open>dc\<close>, \<open>vc\<close> and \<open>mc\<close>
  (\<open>mc\<close> is empty when no maptype is passed), \<open>build_url\<close> returns exactly
  \<open>https://a.atmos.washington.edu/wrfrt/data/timeindep/images_dc/mcvc.HH.0000.gif\<close>:
  the maptype code stands directly before the variable code, and \<open>HH\<close> is the hour as
  the format \<open>02d\<close> prints it. That is a minus sign when the hour is negative, then
  zeros up to a width of two characters, then the decimal numeral of the absolute value:
  a string of digits that is not empty, has no leading zero unless it is \<open>0\<close>, and has
  that value. For an hour from 0 to 99 these are the two characters of the tens and of
  the units.
\<close>

theorem build_url_address:
  assumes "fst (get_domain_code d c) = Inr dc"
    and "fst (get_variable_code v c) = Inr vc"
    and "case mt of None \<Rightarrow> mc = [] | Some m \<Rightarrow> fst (get_maptype_code m c) = Inr mc"
  shows "(\<exists>ds. fst (build_url d v h mt c) =
              Inr (''https://a.atmos.washington.edu/wrfrt/data/timeindep/images_'' @ dc @ ''/''
                   @ mc @ vc @ ''.''
                   @ (if h < 0 then ''-'' else [])
                   @ replicate (2 - (if h < 0 then 1 else 0) - length ds) (CHR ''0'') @ ds
                   @ ''.0000.gif'') \<and>
              ds \<noteq> [] \<and>
              (\<forall>ch\<in>set ds. 48 \<le> (of_char ch :: nat) \<and> (of_char ch :: nat) \<le> 57) \<and>
              (hd ds = CHR ''0'' \<longrightarrow> ds = ''0'') \<and>
              foldl (\<lambda>a ch. 10 * a + (of_char ch - 48)) (0::nat) ds = nat \<bar>h\<bar>) \<and>
         (0 \<le> h \<and> h < 100 \<longrightarrow>
            fst (build_url d v h mt c) =
              Inr (''https://a.atmos.washington.edu/wrfrt/data/timeindep/images_'' @ dc @ ''/''
                   @ mc @ vc @ ''.''
                   @ [char_of (48 + nat h div 10), char_of (48 + nat h mod 10)]
                   @ ''.0000.gif''))"
proof -
  from assms have url: "fst (build_url d v h mt c) =
      Inr (''https://a.atmos.washington.edu/wrfrt/data/timeindep/images_'' @ dc @ ''/''
           @ mc @ vc @ ''.'' @ format_0d 2 h @ ''.0000.gif'')"
    by (auto simp: build_url_fst url_string_def base_url_def split: option.splits)
  let ?ds = "str_nat (nat \<bar>h\<bar>)"
  have canon: "hd ?ds = CHR ''0'' \<longrightarrow> ?ds = ''0''"
    using str_nat_canonical [of "nat \<bar>h\<bar>"] by (auto simp: str_nat_zero)
  have "fst (build_url d v h mt c) =
      Inr (''https://a.atmos.washington.edu/wrfrt/data/timeindep/images_'' @ dc @ ''/''
           @ mc @ vc @ ''.''
           @ (if h < 0 then ''-'' else [])
           @ replicate (2 - (if h < 0 then 1 else 0) - length ?ds) (CHR ''0'') @ ?ds
           @ ''.0000.gif'')"
    unfolding url format_0d_chars [of 2 h] by simp
  with canon have "\<exists>ds. fst (build_url d v h mt c) =
              Inr (''https://a.atmos.washington.edu/wrfrt/data/timeindep/images_'' @ dc @ ''/''
                   @ mc @ vc @ ''.''
                   @ (if h < 0 then ''-'' else [])
                   @ replicate (2 - (if h < 0 then 1 else 0) - length ds) (CHR ''0'') @ ds
                   @ ''.0000.gif'') \<and>
              ds \<noteq> [] \<and>
              (\<forall>ch\<in>set ds. 48 \<le> (of_char ch :: nat) \<and> (of_char ch :: nat) \<le> 57) \<and>
              (hd ds = CHR ''0'' \<longrightarrow> ds = ''0'') \<and>
              foldl (\<lambda>a ch. 10 * a + (of_char ch - 48)) (0::nat) ds = nat \<bar>h\<bar>"
    using str_nat_nonempty [of "nat \<bar>h\<bar>"] str_nat_value [of "nat \<bar>h\<bar>"]
      str_nat_digits [of _ "nat \<bar>h\<bar>"]
    by (intro exI [of _ ?ds]) blast
  moreover have "0 \<le> h \<and> h < 100 \<longrightarrow>
            fst (build_url d v h mt c) =
              Inr (''https://a.atmos.washington.edu/wrfrt/data/timeindep/images_'' @ dc @ ''/''
                   @ mc @ vc @ ''.''
                   @ [char_of (48 + nat h div 10), char_of (48 + nat h mod 10)]
                   @ ''.0000.gif'')"
    unfolding url by (simp add: format_0d_two_chars)
  ultimately show ?thesis by blast
qed

theorem build_url_address_witness:
  "fst (build_url ''d1'' ''v1'' 3 (Some ''m1'') example_config) =
     Inr ''https://a.atmos.washington.edu/wrfrt/data/timeindep/images_d01/wwtp.03.0000.gif''"
proof -
  have m: "case Some ''m1'' of None \<Rightarrow> ''ww'' = []
           | Some m \<Rightarrow> fst (get_maptype_code m example_config) = Inr ''ww''"
    by (simp add: example_maptype)
  have "0 \<le> (3::int) \<and> (3::int) < 100" by simp
  with build_url_address [OF example_domain example_variable m, of 3]
  show ?thesis
    by (simp add: char_of_examples)
qed

text \<open>
  C6. Each of the four lookups, asked for a name that no entry of its configuration list
  carries, raises \<open>ValueError\<close> with the message \<open>"<name> was not found"\<close>; none of
  them returns a value.
\<close>

theorem lookup_absent_raises:
  assumes "memo_ok c"
  shows "(n \<notin> CodeConfig.name ` set (domain_codes c) \<longrightarrow>
            fst (get_domain_code n c) = Inl (ValueError (n @ '' was not found''))) \<and>
         (n \<notin> CodeConfig.name ` set (maptype_codes c) \<longrightarrow>
            fst (get_maptype_code n c) = Inl (ValueError (n @ '' was not found''))) \<and>
         (n \<notin> CodeConfig.name ` set (variable_codes c) \<longrightarrow>
            fst (get_variable_code n c) = Inl (ValueError (n @ '' was not found''))) \<and>
         (n \<notin> ForecastScheduleConfig.name ` set (forecast_schedules c) \<longrightarrow>
            fst (get_forecast_hours n c) = Inl (ValueError (n @ '' was not found'')))"
proof -
  have codes: "n \<notin> CodeConfig.name ` set cs \<Longrightarrow> last_named n (code_pairs cs) = None" for cs
    by (simp add: last_named_None fst_code_pairs)
  have scheds: "n \<notin> ForecastScheduleConfig.name ` set cs
      \<Longrightarrow> last_named n (schedule_pairs cs) = None" for cs
    by (simp add: last_named_None fst_schedule_pairs)
  from assms codes scheds show ?thesis
    by (simp add: get_domain_code_fst get_maptype_code_fst get_variable_code_fst
        get_forecast_hours_fst)
qed

theorem lookup_absent_raises_witness:
  "fst (get_domain_code ''zz'' example_config) = Inl (ValueError ''zz was not found'') \<and>
   fst (get_maptype_code ''zz'' example_config) = Inl (ValueError ''zz was not found'') \<and>
   fst (get_variable_code ''zz'' example_config) = Inl (ValueError ''zz was not found'') \<and>
   fst (get_forecast_hours ''zz'' example_config) = Inl (ValueError ''zz was not found'')"
proof -
  have ok: "memo_ok example_config"
    by (simp add: example_config_def memo_ok_init)
  show ?thesis
    using lookup_absent_raises [OF ok, of "''zz''"]
    by (simp add: example_config_def WrfConfig_init_def)
qed

text \<open>
  C10. When a configuration list holds several entries of one name, the lookup of that
  name succeeds and returns the code (or the hour list) of the last of them: for a list
  \<open>xs @ e # ys\<close> in which no entry of \<open>ys\<close> has the name of \<open>e\<close>, the result is the
  value of \<open>e\<close>, whatever \<open>xs\<close> holds. The memo table left by a lookup has one entry
  per name, so an earlier duplicate cannot be reached through it.
\<close>

theorem duplicate_names_last_wins:
  assumes "memo_ok c"
  shows "(domain_codes c = xs @ e # ys \<and> CodeConfig.name e \<notin> CodeConfig.name ` set ys \<longrightarrow>
            fst (get_domain_code (CodeConfig.name e) c) = Inr (code e)) \<and>
         (maptype_codes c = xs @ e # ys \<and> CodeConfig.name e \<notin> CodeConfig.name ` set ys \<longrightarrow>
            fst (get_maptype_code (CodeConfig.name e) c) = Inr (code e)) \<and>
         (variable_codes c = xs @ e # ys \<and> CodeConfig.name e \<notin> CodeConfig.name ` set ys \<longrightarrow>
            fst (get_variable_code (CodeConfig.name e) c) = Inr (code e)) \<and>
         (forecast_schedules c = ss @ s # ts \<and>
          ForecastScheduleConfig.name s \<notin> ForecastScheduleConfig.name ` set ts \<longrightarrow>
            fst (get_forecast_hours (ForecastScheduleConfig.name s) c) = Inr (hours s)) \<and>
         distinct (map fst (memo_domains (snd (get_domain_code n c)))) \<and>
         distinct (map fst (memo_maptypes (snd (get_maptype_code n c)))) \<and>
         distinct (map fst (memo_variables (snd (get_variable_code n c)))) \<and>
         distinct (map fst (memo_schedules (snd (get_forecast_hours n c))))"
proof -
  have d: "domain_codes c = xs @ e # ys \<and> CodeConfig.name e \<notin> CodeConfig.name ` set ys \<longrightarrow>
      fst (get_domain_code (CodeConfig.name e) c) = Inr (code e)"
    using assms by (simp add: get_domain_code_fst last_named_code_pairs)
  have m: "maptype_codes c = xs @ e # ys \<and> CodeConfig.name e \<notin> CodeConfig.name ` set ys \<longrightarrow>
      fst (get_maptype_code (CodeConfig.name e) c) = Inr (code e)"
    using assms by (simp add: get_maptype_code_fst last_named_code_pairs)
  have v: "variable_codes c = xs @ e # ys \<and> CodeConfig.name e \<notin> CodeConfig.name ` set ys \<longrightarrow>
      fst (get_variable_code (CodeConfig.name e) c) = Inr (code e)"
    using assms by (simp add: get_variable_code_fst last_named_code_pairs)
  have f: "forecast_schedules c = ss @ s # ts \<and>
      ForecastScheduleConfig.name s \<notin> ForecastScheduleConfig.name ` set ts \<longrightarrow>
      fst (get_forecast_hours (ForecastScheduleConfig.name s) c) = Inr (hours s)"
    using assms by (simp add: get_forecast_hours_fst last_named_schedule_pairs)
  from d m v f assms show ?thesis
    by (simp only: memo_domains_distinct memo_maptypes_distinct memo_variables_distinct
        memo_schedules_distinct simp_thms)
qed

theorem duplicate_names_last_wins_witness:
  "fst (get_domain_code ''d1'' example_config) = Inr ''d01'' \<and>
   fst (get_maptype_code ''m1'' example_config) = Inr ''ww'' \<and>
   fst (get_variable_code ''v1'' example_config) = Inr ''tp'' \<and>
   fst (get_forecast_hours ''s1'' example_config) = Inr [0, 12]"
proof -
  have ok: "memo_ok example_config"
    by (simp add: example_config_def memo_ok_init)
  have "fst (get_domain_code ''d1'' example_config) = Inr ''d01''"
    using duplicate_names_last_wins [OF ok,
        of "[\<lparr>CodeConfig.name = ''d1'', code = ''d00''\<rparr>, \<lparr>CodeConfig.name = ''d2'', code = ''d02''\<rparr>]"
           "\<lparr>CodeConfig.name = ''d1'', code = ''d01''\<rparr>" "[]"]
    by (simp add: example_config_def WrfConfig_init_def)
  moreover have "fst (get_maptype_code ''m1'' example_config) = Inr ''ww''"
    using duplicate_names_last_wins [OF ok,
        of "[\<lparr>CodeConfig.name = ''m1'', code = ''old''\<rparr>]"
           "\<lparr>CodeConfig.name = ''m1'', code = ''ww''\<rparr>" "[]"]
    by (simp add: example_config_def WrfConfig_init_def)
  moreover have "fst (get_variable_code ''v1'' example_config) = Inr ''tp''"
    using duplicate_names_last_wins [OF ok,
        of "[\<lparr>CodeConfig.name = ''v1'', code = ''old''\<rparr>]"
           "\<lparr>CodeConfig.name = ''v1'', code = ''tp''\<rparr>" "[]"]
    by (simp add: example_config_def WrfConfig_init_def)
  moreover have "fst (get_forecast_hours ''s1'' example_config) = Inr [0, 12]"
    using duplicate_names_last_wins [OF ok, of _ _ _
           "[\<lparr>ForecastScheduleConfig.name = ''s1'', hours = [6]\<rparr>]"
           "\<lparr>ForecastScheduleConfig.name = ''s1'', hours = [0, 12]\<rparr>" "[]"]
    by (simp add: example_config_def WrfConfig_init_def)
  ultimately show ?thesis by simp
qed

section \<open>The annotation store: auxiliary facts\<close>

lemma get_after_set:
  "get_annotations d i (set_annotations d i anns s) = anns"
  by (simp add: get_annotations_def set_annotations_def save_def Let_def update_conv'
      split: option.splits)


lemma points_set_annotations:
  "geographic_points (set_annotations d i anns s) = geographic_points s"
  by (simp add: set_annotations_def save_def Let_def)

lemma list_pop_length: "n < length xs \<Longrightarrow> length (list_pop n xs) = length xs - 1"
  by (simp add: list_pop_def)

lemma list_pop_before: "j < n \<Longrightarrow> n < length xs \<Longrightarrow> list_pop n xs ! j = xs ! j"
  by (simp add: list_pop_def nth_append)

lemma list_pop_after:
  "n \<le> j \<Longrightarrow> j < length xs - Suc 0 \<Longrightarrow> list_pop n xs ! j = xs ! Suc j"
  by (auto simp: list_pop_def nth_append min_def)

lemma list_pop_snoc: "list_pop (length xs) (xs @ [x]) = xs"
  by (simp add: list_pop_def)

lemma example_annotations:
  "get_annotations ''d01'' ''a.gif'' example_store =
     [[(''pixel_x'', PyInt 10), (''pixel_y'', PyInt 20), (''point'', PyStr ''sea'')],
      [(''pixel_x'', PyInt 30), (''pixel_y'', PyInt 40), (''point'', PyStr ''sea'')]]"
  by (simp add: get_annotations_def example_store_def)

lemma update_fresh: "k \<notin> fst ` set al \<Longrightarrow> AList.update k v al = al @ [(k, v)]"
  by (induction al) auto

lemma dict_update_all_fresh:
  "distinct (map fst ps) \<Longrightarrow> fst ` set ps \<inter> fst ` set d = {} \<Longrightarrow> dict_update_all d ps = d @ ps"
proof (induction ps arbitrary: d)
  case Nil
  show ?case by (simp add: dict_update_all_def)
next
  case (Cons p ps)
  obtain k v where p: "p = (k, v)" by (cases p)
  from Cons.prems p have fresh: "k \<notin> fst ` set d" by auto
  from Cons.prems p have "distinct (map fst ps)" and "fst ` set ps \<inter> fst ` set (d @ [(k, v)]) = {}"
    by auto
  then have "dict_update_all (d @ [(k, v)]) ps = (d @ [(k, v)]) @ ps"
    by (rule Cons.IH)
  with fresh p show ?case
    by (simp add: dict_update_all_def update_fresh)
qed

lemma tagged_append:
  assumes "distinct (map fst ann)" and "list_all (\<lambda>k. k \<notin> set reserved_keys) (map fst ann)"
  shows "tagged d i k ann =
           [(''domain'', PyStr d), (''image'', PyStr i), (''index'', PyInt (int k))] @ ann"
proof -
  from assms(2) have "fst ` set ann \<inter>
      fst ` set [(''domain'', PyStr d), (''image'', PyStr i), (''index'', PyInt (int k))] = {}"
    by (auto simp: list_all_iff reserved_keys_def)
  with assms(1) show ?thesis
    unfolding tagged_def by (rule dict_update_all_fresh)
qed

lemma enumerate_map_nth:
  "map (\<lambda>(idx, x). f idx x) (enumerate 0 xs) = map (\<lambda>k. f k (xs ! k)) [0..<length xs]"
  by (rule nth_equalityI) (simp_all add: nth_enumerate_eq)

lemma get_annotations_member:
  assumes "distinct (map fst (annotations s))" and "(d, imgs) \<in> set (annotations s)"
    and "distinct (map fst imgs)" and "(i, anns) \<in> set imgs"
  shows "get_annotations d i s = anns"
  using assms by (simp add: get_annotations_def)

lemma concat_map_cong:
  "(\<And>x. x \<in> set xs \<Longrightarrow> f x = g x) \<Longrightarrow> concat (map f xs) = concat (map g xs)"
  by (induction xs) auto

lemma get_all_annotations_addresses:
  assumes "store_ok s"
  shows "get_all_annotations s =
           map (\<lambda>(d, i, k). tagged d i k (get_annotations d i s ! k)) (addresses s)"
proof -
  have inner: "map (\<lambda>(idx, ann). tagged d i idx ann) (enumerate 0 anns) =
      map (\<lambda>(d, i, k). tagged d i k (get_annotations d i s ! k))
        (map (\<lambda>k. (d, i, k)) [0..<length anns])"
    if "(d, imgs) \<in> set (annotations s)" "(i, anns) \<in> set imgs" for d imgs i anns
  proof -
    from assms that have "get_annotations d i s = anns"
      by (intro get_annotations_member [of s d imgs i anns])
        (auto simp: store_ok_def list_all_iff)
    then show ?thesis
      by (simp add: enumerate_map_nth comp_def)
  qed
  have middle: "concat (map (\<lambda>(i, anns). map (\<lambda>(idx, ann). tagged d i idx ann) (enumerate 0 anns)) imgs) =
      map (\<lambda>(d, i, k). tagged d i k (get_annotations d i s ! k))
        (concat (map (\<lambda>(i, anns). map (\<lambda>k. (d, i, k)) [0..<length anns]) imgs))"
    if "(d, imgs) \<in> set (annotations s)" for d imgs
  proof -
    have "concat (map (\<lambda>(i, anns). map (\<lambda>(idx, ann). tagged d i idx ann) (enumerate 0 anns)) imgs) =
        concat (map (\<lambda>(i, anns). map (\<lambda>(d, i, k). tagged d i k (get_annotations d i s ! k))
          (map (\<lambda>k. (d, i, k)) [0..<length anns])) imgs)"
      by (rule concat_map_cong) (use inner [OF that] in \<open>auto\<close>)
    then show ?thesis
      by (simp add: map_concat comp_def split_def)
  qed
  have "get_all_annotations s =
      concat (map (\<lambda>(d, imgs). map (\<lambda>(d, i, k). tagged d i k (get_annotations d i s ! k))
        (concat (map (\<lambda>(i, anns). map (\<lambda>k. (d, i, k)) [0..<length anns]) imgs)))
        (annotations s))"
    unfolding get_all_annotations_def
    by (rule concat_map_cong) (use middle in \<open>auto\<close>)
  then show ?thesis
    by (simp add: addresses_def map_concat comp_def split_def)
qed

lemma distinct_concat_keyed:
  assumes "distinct (map fst l)"
    and "\<And>k v. (k, v) \<in> set l \<Longrightarrow> distinct (F k v) \<and> (\<forall>x\<in>set (F k v). key x = k)"
  shows "distinct (concat (map (\<lambda>(k, v). F k v) l))"
  using assms
proof (induction l)
  case Nil
  show ?case by simp
next
  case (Cons p l)
  obtain k v where p: "p = (k, v)" by (cases p)
  from Cons.prems p have k: "k \<notin> fst ` set l" by simp
  have rest: "distinct (concat (map (\<lambda>(k, v). F k v) l))"
    using Cons.prems by (intro Cons.IH) auto
  have here: "distinct (F k v)" and keys: "\<forall>x\<in>set (F k v). key x = k"
    using Cons.prems(2) [of k v] p by auto
  have "set (F k v) \<inter> set (concat (map (\<lambda>(k, v). F k v) l)) = {}"
  proof (rule ccontr)
    assume "set (F k v) \<inter> set (concat (map (\<lambda>(k, v). F k v) l)) \<noteq> {}"
    then obtain x k' v' where x: "x \<in> set (F k v)" and m: "(k', v') \<in> set l" and x': "x \<in> set (F k' v')"
      by auto
    from x keys have "key x = k" by simp
    moreover from Cons.prems(2) [of k' v'] m x' have "key x = k'" by simp
    ultimately have "k \<in> fst ` set l" using m by force
    with k show False by simp
  qed
  with rest here p show ?case by simp
qed

lemma distinct_addresses:
  assumes "store_ok s"
  shows "distinct (addresses s)"
  unfolding addresses_def
proof (rule distinct_concat_keyed [where key = fst], goal_cases)
  case 1
  from assms show ?case by (simp add: store_ok_def)
next
  case (2 d imgs)
  with assms have di: "distinct (map fst imgs)"
    by (auto simp: store_ok_def list_all_iff)
  have "distinct (concat (map (\<lambda>(i, anns). map (\<lambda>k. (d, i, k)) [0..<length anns]) imgs))"
    by (rule distinct_concat_keyed [where key = "\<lambda>x. fst (snd x)", OF di])
      (auto simp: distinct_map inj_on_def)
  then show ?case by auto
qed

lemma length_get_all_annotations: "length (get_all_annotations s) = total_annotations s"
proof -
  have inner: "length (concat (map (\<lambda>(i, anns). map (\<lambda>(idx, ann). tagged d i idx ann)
      (enumerate 0 anns)) imgs)) = sum_list (map (\<lambda>(i, anns). length anns) imgs)" for d imgs
    by (induction imgs) auto
  show ?thesis
    unfolding get_all_annotations_def total_annotations_def
    by (induction "annotations s" arbitrary: s) (auto simp: inner length_concat comp_def split_def)
qed

lemma in_addresses:
  "(d, i, k) \<in> set (addresses s) \<longleftrightarrow>
     (\<exists>imgs anns. (d, imgs) \<in> set (annotations s) \<and> (i, anns) \<in> set imgs \<and> k < length anns)"
  unfolding addresses_def by fastforce

lemma in_addresses_iff:
  assumes "store_ok s"
  shows "(d, i, k) \<in> set (addresses s) \<longleftrightarrow> k < length (get_annotations d i s)"
proof
  assume "(d, i, k) \<in> set (addresses s)"
  then obtain imgs anns where d: "(d, imgs) \<in> set (annotations s)"
    and i: "(i, anns) \<in> set imgs" and k: "k < length anns"
    unfolding in_addresses by blast
  from assms d have "distinct (map fst (annotations s))" "distinct (map fst imgs)"
    by (auto simp: store_ok_def list_all_iff)
  with d i have "get_annotations d i s = anns"
    by (simp add: get_annotations_def)
  with k show "k < length (get_annotations d i s)" by simp
next
  assume k: "k < length (get_annotations d i s)"
  then obtain imgs where d: "map_of (annotations s) d = Some imgs"
    by (cases "map_of (annotations s) d") (simp_all add: get_annotations_def)
  with k obtain anns where i: "map_of imgs i = Some anns"
    by (cases "map_of imgs i") (simp_all add: get_annotations_def)
  from d i k have "k < length anns" by (simp add: get_annotations_def)
  moreover from d have "(d, imgs) \<in> set (annotations s)" by (rule map_of_SomeD)
  moreover from i have "(i, anns) \<in> set imgs" by (rule map_of_SomeD)
  ultimately show "(d, i, k) \<in> set (addresses s)"
    unfolding in_addresses by blast
qed

lemma set_addresses:
  assumes "store_ok s"
  shows "set (addresses s) = {(d, i, k). k < length (get_annotations d i s)}"
proof (rule set_eqI)
  fix x :: "string \<times> string \<times> nat"
  obtain d i k where x: "x = (d, i, k)" by (cases x)
  show "x \<in> set (addresses s) \<longleftrightarrow> x \<in> {(d, i, k). k < length (get_annotations d i s)}"
    by (simp add: x in_addresses_iff [OF assms])
qed

lemma no_reserved_member:
  assumes "no_reserved s" and "store_ok s" and "(d, i, k) \<in> set (addresses s)"
  shows "distinct (map fst (get_annotations d i s ! k)) \<and>
         list_all (\<lambda>k. k \<notin> set reserved_keys) (map fst (get_annotations d i s ! k))"
proof -
  from assms(3) obtain imgs anns where d: "(d, imgs) \<in> set (annotations s)"
    and i: "(i, anns) \<in> set imgs" and k: "k < length anns"
    unfolding in_addresses by blast
  from assms(2) d have "distinct (map fst (annotations s))" "distinct (map fst imgs)"
    by (auto simp: store_ok_def list_all_iff)
  with d i have g: "get_annotations d i s = anns"
    by (simp add: get_annotations_def)
  from k have m: "anns ! k \<in> set anns" by simp
  from assms(2) d i m have "distinct (map fst (anns ! k))"
    by (fastforce simp: store_ok_def list_all_iff)
  moreover from assms(1) d i m
  have "list_all (\<lambda>k. k \<notin> set reserved_keys) (map fst (anns ! k))"
    unfolding no_reserved_def list_all_iff by fastforce
  ultimately show ?thesis by (simp add: g)
qed

lemma example_store_ok: "store_ok example_store \<and> no_reserved example_store"
  by (simp add: store_ok_def no_reserved_def example_store_def reserved_keys_def)

lemma example_addresses: "addresses example_store = [(''d01'', ''a.gif'', 0), (''d01'', ''a.gif'', 1)]"
  by (simp add: addresses_def example_store_def upt_rec)

lemma map_of_rev_distinct: "distinct (map fst ps) \<Longrightarrow> map_of (rev ps) k = map_of ps k"
proof (cases "map_of ps k")
  case None
  assume "distinct (map fst ps)"
  from None have "k \<notin> fst ` set ps" by (simp add: map_of_eq_None_iff)
  then have "map_of (rev ps) k = None" by (simp add: map_of_eq_None_iff)
  with None show ?thesis by simp
next
  case (Some v)
  assume d: "distinct (map fst ps)"
  from Some have "(k, v) \<in> set (rev ps)" by (auto dest: map_of_SomeD)
  moreover from d have "distinct (map fst (rev ps))" by (simp add: rev_map [symmetric])
  ultimately have "map_of (rev ps) k = Some v" by (rule map_of_is_SomeI [rotated])
  with Some show ?thesis by simp
qed

lemma map_of_tagged:
  "distinct (map fst ann) \<Longrightarrow>
   map_of (tagged d i k ann) x =
     (case map_of ann x of
        Some v \<Rightarrow> Some v
      | None \<Rightarrow> map_of [(''domain'', PyStr d), (''image'', PyStr i), (''index'', PyInt (int k))] x)"
  unfolding tagged_def
  by (simp add: map_of_dict_update_all map_of_rev_distinct split: option.splits)

lemma store_member_distinct:
  assumes "store_ok s" and "(d, i, k) \<in> set (addresses s)"
  shows "distinct (map fst (get_annotations d i s ! k))"
proof -
  from assms(2) obtain imgs anns where d: "(d, imgs) \<in> set (annotations s)"
    and i: "(i, anns) \<in> set imgs" and k: "k < length anns"
    unfolding in_addresses by blast
  from assms(1) d have "distinct (map fst (annotations s))" "distinct (map fst imgs)"
    by (auto simp: store_ok_def list_all_iff)
  with d i have g: "get_annotations d i s = anns"
    by (simp add: get_annotations_def)
  from k have m: "anns ! k \<in> set anns" by simp
  from assms(1) d i m have "distinct (map fst (anns ! k))"
    by (fastforce simp: store_ok_def list_all_iff)
  then show ?thesis by (simp add: g)
qed

lemma get_all_annotations_nth:
  assumes "store_ok s" and "n < length (addresses s)" and "addresses s ! n = (d, i, k)"
  shows "k < length (get_annotations d i s) \<and>
         (\<forall>x. map_of (get_all_annotations s ! n) x =
            (case map_of (get_annotations d i s ! k) x of
               Some v \<Rightarrow> Some v
             | None \<Rightarrow> map_of [(''domain'', PyStr d), (''image'', PyStr i),
                                 (''index'', PyInt (int k))] x))"
proof -
  from assms(2,3) have m: "(d, i, k) \<in> set (addresses s)"
    by (metis nth_mem)
  then have k: "k < length (get_annotations d i s)"
    by (simp add: in_addresses_iff [OF assms(1)])
  from assms(2,3) have "get_all_annotations s ! n = tagged d i k (get_annotations d i s ! k)"
    by (simp add: get_all_annotations_addresses [OF assms(1)])
  with k store_member_distinct [OF assms(1) m] show ?thesis
    by (simp add: map_of_tagged)
qed

lemma clash_store_ok: "store_ok clash_store"
  by (simp add: store_ok_def clash_store_def)

lemma clash_addresses: "addresses clash_store = [(''d01'', ''a.gif'', 0), (''d01'', ''a.gif'', 1)]"
  by (simp add: addresses_def clash_store_def upt_rec)

lemma clash_total: "total_annotations clash_store = 2"
  by (simp add: total_annotations_def clash_store_def)

lemma clash_annotations:
  "get_annotations ''d01'' ''a.gif'' clash_store = [[(''index'', PyInt 5)], [(''index'', PyInt 5)]]"
  by (simp add: get_annotations_def clash_store_def)

section \<open>Properties of the annotation store\<close>




text \<open>
  C4. With an index below 0 or not below the length of the list, \<open>remove_annotation\<close>
  and \<open>update_annotation\<close> return the manager unchanged (neither can raise). With an
  index within range, removal shortens the list by one, keeps the elements before the
  index and moves each later element one position down; update keeps the length, puts
  the new annotation at the index and keeps every other element.
\<close>

theorem annotation_index_tolerance:
  "(index < 0 \<or> int (length (get_annotations d i s)) \<le> index \<longrightarrow>
      remove_annotation d i index s = s \<and> update_annotation d i index a s = s) \<and>
   (0 \<le> index \<and> index < int (length (get_annotations d i s)) \<longrightarrow>
      (let old = get_annotations d i s;
           n = nat index;
           rem = get_annotations d i (remove_annotation d i index s);
           upd = get_annotations d i (update_annotation d i index a s)
       in length rem = length old - 1 \<and>
          (\<forall>j<n. rem ! j = old ! j) \<and>
          (\<forall>j. n \<le> j \<and> j < length rem \<longrightarrow> rem ! j = old ! Suc j) \<and>
          length upd = length old \<and>
          upd ! n = a \<and>
          (\<forall>j<length old. j \<noteq> n \<longrightarrow> upd ! j = old ! j)))"
proof -
  have out: "index < 0 \<or> int (length (get_annotations d i s)) \<le> index \<Longrightarrow>
      remove_annotation d i index s = s \<and> update_annotation d i index a s = s"
    by (auto simp: remove_annotation_def update_annotation_def Let_def)
  have inside: "0 \<le> index \<and> index < int (length (get_annotations d i s)) \<Longrightarrow>
      get_annotations d i (remove_annotation d i index s) =
        list_pop (nat index) (get_annotations d i s) \<and>
      get_annotations d i (update_annotation d i index a s) =
        (get_annotations d i s)[nat index := a]"
    by (simp add: remove_annotation_def update_annotation_def Let_def get_after_set)
  show ?thesis
  proof (intro conjI impI)
    assume "index < 0 \<or> int (length (get_annotations d i s)) \<le> index"
    then show "remove_annotation d i index s = s" "update_annotation d i index a s = s"
      using out by simp_all
  next
    assume r: "0 \<le> index \<and> index < int (length (get_annotations d i s))"
    then have n: "nat index < length (get_annotations d i s)" by linarith
    from inside [OF r] n show "let old = get_annotations d i s;
           n = nat index;
           rem = get_annotations d i (remove_annotation d i index s);
           upd = get_annotations d i (update_annotation d i index a s)
       in length rem = length old - 1 \<and>
          (\<forall>j<n. rem ! j = old ! j) \<and>
          (\<forall>j. n \<le> j \<and> j < length rem \<longrightarrow> rem ! j = old ! Suc j) \<and>
          length upd = length old \<and>
          upd ! n = a \<and>
          (\<forall>j<length old. j \<noteq> n \<longrightarrow> upd ! j = old ! j)"
      by (simp add: Let_def list_pop_length list_pop_before list_pop_after)
  qed
qed

theorem annotation_index_tolerance_witness:
  "remove_annotation ''d01'' ''a.gif'' 2 example_store = example_store \<and>
   update_annotation ''d01'' ''a.gif'' (- 1) [(''pixel_x'', PyInt 1)] example_store = example_store \<and>
   get_annotations ''d01'' ''a.gif'' (remove_annotation ''d01'' ''a.gif'' 0 example_store) ! 0 =
     [(''pixel_x'', PyInt 30), (''pixel_y'', PyInt 40), (''point'', PyStr ''sea'')] \<and>
   get_annotations ''d01'' ''a.gif''
     (update_annotation ''d01'' ''a.gif'' 0 [(''pixel_x'', PyInt 1)] example_store) ! 0 =
     [(''pixel_x'', PyInt 1)]"
  using annotation_index_tolerance [of 2 "''d01''" "''a.gif''" example_store]
    annotation_index_tolerance [of "- 1" "''d01''" "''a.gif''" example_store "[(''pixel_x'', PyInt 1)]"]
    annotation_index_tolerance [of 0 "''d01''" "''a.gif''" example_store "[(''pixel_x'', PyInt 1)]"]
  by (simp add: example_annotations Let_def)

text \<open>
  C7 (as amended). For every store, the flattened list has as many elements as the lists
  of the store together. For every store of dictionaries (the keys of a dictionary are
  pairwise different), the elements follow the positions of the store, taken in
  dictionary order of domains, then of images, then by index: the \<open>n\<close>-th element has
  the fields of the annotation at the \<open>n\<close>-th position and, where that annotation has
  no field of the name, the fields \<open>domain\<close>, \<open>image\<close> and \<open>index\<close> of the position;
  the positions are pairwise different and are all positions of all lists. When no
  stored annotation has a field named \<open>domain\<close>, \<open>image\<close> or \<open>index\<close> of its own, each
  element is its annotation behind the three fields of its position, and the triples
  that the elements carry are pairwise different.
\<close>

theorem get_all_annotations_flattens:
  "length (get_all_annotations s) = total_annotations s \<and>
   (store_ok s \<longrightarrow>
      length (get_all_annotations s) = length (addresses s) \<and>
      (\<forall>n<length (addresses s). \<forall>d i k. addresses s ! n = (d, i, k) \<longrightarrow>
         k < length (get_annotations d i s) \<and>
         (\<forall>x. map_of (get_all_annotations s ! n) x =
            (case map_of (get_annotations d i s ! k) x of
               Some v \<Rightarrow> Some v
             | None \<Rightarrow> map_of [(''domain'', PyStr d), (''image'', PyStr i),
                                 (''index'', PyInt (int k))] x))) \<and>
      distinct (addresses s) \<and>
      set (addresses s) = {(d, i, k). k < length (get_annotations d i s)}) \<and>
   (store_ok s \<and> no_reserved s \<longrightarrow>
      get_all_annotations s =
        map (\<lambda>(d, i, k). [(''domain'', PyStr d), (''image'', PyStr i), (''index'', PyInt (int k))]
                           @ get_annotations d i s ! k) (addresses s) \<and>
      map address (get_all_annotations s) =
        map (\<lambda>(d, i, k). (Some (PyStr d), Some (PyStr i), Some (PyInt (int k)))) (addresses s) \<and>
      distinct (map address (get_all_annotations s)))"
proof (intro conjI impI)
  show "length (get_all_annotations s) = total_annotations s"
    by (rule length_get_all_annotations)
next
  assume ok: "store_ok s"
  show "length (get_all_annotations s) = length (addresses s)"
    by (simp add: get_all_annotations_addresses [OF ok])
  show "\<forall>n<length (addresses s). \<forall>d i k. addresses s ! n = (d, i, k) \<longrightarrow>
         k < length (get_annotations d i s) \<and>
         (\<forall>x. map_of (get_all_annotations s ! n) x =
            (case map_of (get_annotations d i s ! k) x of
               Some v \<Rightarrow> Some v
             | None \<Rightarrow> map_of [(''domain'', PyStr d), (''image'', PyStr i),
                                 (''index'', PyInt (int k))] x))"
    using get_all_annotations_nth [OF ok] by blast
  show "distinct (addresses s)"
    by (rule distinct_addresses [OF ok])
  show "set (addresses s) = {(d, i, k). k < length (get_annotations d i s)}"
    by (rule set_addresses [OF ok])
next
  assume "store_ok s \<and> no_reserved s"
  then have ok: "store_ok s" and nr: "no_reserved s" by simp_all
  have flat: "get_all_annotations s =
      map (\<lambda>(d, i, k). [(''domain'', PyStr d), (''image'', PyStr i), (''index'', PyInt (int k))]
                         @ get_annotations d i s ! k) (addresses s)"
    unfolding get_all_annotations_addresses [OF ok]
  proof (rule map_cong [OF refl])
    fix x assume x: "x \<in> set (addresses s)"
    obtain d i k where xe: "x = (d, i, k)" by (cases x)
    from no_reserved_member [OF nr ok] x xe show
      "(case x of (d, i, k) \<Rightarrow> tagged d i k (get_annotations d i s ! k)) =
       (case x of (d, i, k) \<Rightarrow> [(''domain'', PyStr d), (''image'', PyStr i), (''index'', PyInt (int k))]
          @ get_annotations d i s ! k)"
      by (simp add: tagged_append)
  qed
  have addr: "map address (get_all_annotations s) =
      map (\<lambda>(d, i, k). (Some (PyStr d), Some (PyStr i), Some (PyInt (int k)))) (addresses s)"
    unfolding flat by (simp add: comp_def split_def address_def)
  have "inj_on (\<lambda>(d, i, k). (Some (PyStr d), Some (PyStr i), Some (PyInt (int k))))
      (set (addresses s))"
    by (auto simp: inj_on_def)
  then have dist: "distinct (map address (get_all_annotations s))"
    unfolding addr using distinct_addresses [OF ok]
    by (simp add: distinct_map)
  from flat show "get_all_annotations s =
      map (\<lambda>(d, i, k). [(''domain'', PyStr d), (''image'', PyStr i), (''index'', PyInt (int k))]
                         @ get_annotations d i s ! k) (addresses s)" .
  from addr show "map address (get_all_annotations s) =
      map (\<lambda>(d, i, k). (Some (PyStr d), Some (PyStr i), Some (PyInt (int k)))) (addresses s)" .
  from dist show "distinct (map address (get_all_annotations s))" .
qed

theorem get_all_annotations_flattens_witness:
  "get_all_annotations example_store =
     [[(''domain'', PyStr ''d01''), (''image'', PyStr ''a.gif''), (''index'', PyInt 0),
       (''pixel_x'', PyInt 10), (''pixel_y'', PyInt 20), (''point'', PyStr ''sea'')],
      [(''domain'', PyStr ''d01''), (''image'', PyStr ''a.gif''), (''index'', PyInt 1),
       (''pixel_x'', PyInt 30), (''pixel_y'', PyInt 40), (''point'', PyStr ''sea'')]] \<and>
   length (get_all_annotations clash_store) = 2 \<and>
   map_of (get_all_annotations clash_store ! 1) ''image'' = Some (PyStr ''a.gif'') \<and>
   map_of (get_all_annotations clash_store ! 1) ''index'' = Some (PyInt 5)"
proof -
  from get_all_annotations_flattens [of example_store] example_store_ok
  have a: "get_all_annotations example_store =
     [[(''domain'', PyStr ''d01''), (''image'', PyStr ''a.gif''), (''index'', PyInt 0),
       (''pixel_x'', PyInt 10), (''pixel_y'', PyInt 20), (''point'', PyStr ''sea'')],
      [(''domain'', PyStr ''d01''), (''image'', PyStr ''a.gif''), (''index'', PyInt 1),
       (''pixel_x'', PyInt 30), (''pixel_y'', PyInt 40), (''point'', PyStr ''sea'')]]"
    by (simp add: example_addresses example_annotations)
  from get_all_annotations_flattens [of clash_store]
  have b: "length (get_all_annotations clash_store) = 2"
    by (simp add: clash_total)
  from get_all_annotations_flattens [of clash_store] clash_store_ok
  have "\<forall>n<length (addresses clash_store). \<forall>d i k. addresses clash_store ! n = (d, i, k) \<longrightarrow>
         k < length (get_annotations d i clash_store) \<and>
         (\<forall>x. map_of (get_all_annotations clash_store ! n) x =
            (case map_of (get_annotations d i clash_store ! k) x of
               Some v \<Rightarrow> Some v
             | None \<Rightarrow> map_of [(''domain'', PyStr d), (''image'', PyStr i),
                                 (''index'', PyInt (int k))] x))"
    by blast
  moreover have "1 < length (addresses clash_store)"
    and "addresses clash_store ! 1 = (''d01'', ''a.gif'', 1)"
    by (simp_all add: clash_addresses)
  ultimately have "\<forall>x. map_of (get_all_annotations clash_store ! 1) x =
            (case map_of (get_annotations ''d01'' ''a.gif'' clash_store ! 1) x of
               Some v \<Rightarrow> Some v
             | None \<Rightarrow> map_of [(''domain'', PyStr ''d01''), (''image'', PyStr ''a.gif''),
                                 (''index'', PyInt (int 1))] x)"
    by blast
  then have c: "map_of (get_all_annotations clash_store ! 1) ''image'' = Some (PyStr ''a.gif'') \<and>
      map_of (get_all_annotations clash_store ! 1) ''index'' = Some (PyInt 5)"
    by (simp add: clash_annotations)
  from a b c show ?thesis by simp
qed

text \<open>
  C7 as stated fails: the fields of the annotation are unpacked after the three added
  fields and replace them. Two annotations at positions 0 and 1 that both have a field
  \<open>index\<close> of value 5 come back with index 5 both, so the triples neither give the
  positions nor differ.
\<close>

theorem get_all_annotations_index_counterexample:
  "map address (get_all_annotations clash_store) =
     [(Some (PyStr ''d01''), Some (PyStr ''a.gif''), Some (PyInt 5)),
      (Some (PyStr ''d01''), Some (PyStr ''a.gif''), Some (PyInt 5))] \<and>
   \<not> distinct (map address (get_all_annotations clash_store))"
  by (simp add: get_all_annotations_def clash_store_def enumerate_eq_zip upt_rec tagged_def
      dict_update_all_def address_def)

text \<open>
  C8. After \<open>add_annotation\<close>, removing at the last index of the new list gives back
  the annotation list that the domain and image had before.
\<close>

theorem add_then_remove_last:
  "get_annotations d i
     (remove_annotation d i (int (length (get_annotations d i (add_annotation d i a s))) - 1)
        (add_annotation d i a s)) = get_annotations d i s"
  by (simp add: remove_annotation_def add_annotation_def Let_def get_after_set list_pop_snoc)

text \<open>
  C9. \<open>remove_geographic_point\<close> never changes the annotations: every annotation list
  is as before, so an annotation that refers to the removed key still does. When the key
  is absent the call returns the manager unchanged.
\<close>

theorem remove_point_keeps_annotations:
  "annotations (remove_geographic_point k s) = annotations s \<and>
   (\<forall>d i. get_annotations d i (remove_geographic_point k s) = get_annotations d i s) \<and>
   (map_of (geographic_points s) k = None \<longrightarrow> remove_geographic_point k s = s)"
  by (simp add: remove_geographic_point_def save_def get_annotations_def)

theorem remove_point_keeps_annotations_witness:
  "map_of (geographic_points (remove_geographic_point ''sea'' example_store)) ''sea'' = None \<and>
   get_annotations ''d01'' ''a.gif'' (remove_geographic_point ''sea'' example_store) =
     [[(''pixel_x'', PyInt 10), (''pixel_y'', PyInt 20), (''point'', PyStr ''sea'')],
      [(''pixel_x'', PyInt 30), (''pixel_y'', PyInt 40), (''point'', PyStr ''sea'')]] \<and>
   remove_geographic_point ''tacoma'' example_store = example_store"
proof -
  have absent: "map_of (geographic_points example_store) ''tacoma'' = None"
    by (simp add: example_store_def)
  have gone: "map_of (geographic_points (remove_geographic_point ''sea'' example_store)) ''sea'' = None"
    by (simp add: remove_geographic_point_def example_store_def save_def)
  show ?thesis
    using remove_point_keeps_annotations [of "''sea''" example_store]
      remove_point_keeps_annotations [of "''tacoma''" example_store] absent gone
    by (simp add: example_annotations)
qed

section \<open>The download loop: auxiliary facts\<close>



















lemma same_tables_refl: "same_tables c c"
  by (simp add: same_tables_def)

lemma same_tables_trans: "same_tables a b \<Longrightarrow> same_tables b c \<Longrightarrow> same_tables a c"
  by (simp add: same_tables_def)

lemma get_domain_code_keeps:
  "memo_ok c \<Longrightarrow> memo_ok (snd (get_domain_code n c)) \<and> same_tables c (snd (get_domain_code n c))"
  using get_domain_code_snd [of n c] by (auto simp: memo_ok_def same_tables_def)

lemma get_maptype_code_keeps:
  "memo_ok c \<Longrightarrow> memo_ok (snd (get_maptype_code n c)) \<and> same_tables c (snd (get_maptype_code n c))"
  using get_maptype_code_snd [of n c] by (auto simp: memo_ok_def same_tables_def)

lemma get_variable_code_keeps:
  "memo_ok c \<Longrightarrow> memo_ok (snd (get_variable_code n c)) \<and> same_tables c (snd (get_variable_code n c))"
  using get_variable_code_snd [of n c] by (auto simp: memo_ok_def same_tables_def)


lemma build_url_keeps:
  assumes "memo_ok c"
  shows "memo_ok (snd (build_url d v h mt c)) \<and> same_tables c (snd (build_url d v h mt c))"
proof -
  let ?s1 = "snd (get_domain_code d c)"
  let ?s2 = "case mt of None \<Rightarrow> ?s1 | Some m \<Rightarrow> snd (get_maptype_code m ?s1)"
  let ?s3 = "snd (get_variable_code v ?s2)"
  have 1: "memo_ok ?s1 \<and> same_tables c ?s1"
    using assms by (rule get_domain_code_keeps)
  have 2: "memo_ok ?s2 \<and> same_tables c ?s2"
  proof (cases mt)
    case None
    with 1 show ?thesis by simp
  next
    case (Some m)
    with 1 get_maptype_code_keeps [of ?s1 m] show ?thesis
      by (auto intro: same_tables_trans)
  qed
  have 3: "memo_ok ?s3 \<and> same_tables c ?s3"
    using 2 get_variable_code_keeps [of ?s2 v] by (auto intro: same_tables_trans)
  have "snd (build_url d v h mt c) = ?s1 \<or> snd (build_url d v h mt c) = ?s2
      \<or> snd (build_url d v h mt c) = ?s3"
    by (auto simp: build_url_def split: prod.splits sum.splits option.splits)
  with 1 2 3 show ?thesis by auto
qed


lemma download_hour_skip:
  "path_exists (files w) (gif_output_path out layer h) \<Longrightarrow>
   download_hour client layer out h cfg w = (Inr (), cfg, w)"
  by (simp add: download_hour_def)

lemma download_hour_config:
  assumes "memo_ok cfg" and "download_hour client layer out h cfg w = (r, cfg1, w1)"
  shows "memo_ok cfg1 \<and> same_tables cfg cfg1"
proof -
  from assms(2) have "cfg1 = cfg \<or>
      cfg1 = snd (build_url (domain layer) (variable layer) h (Some (maptype layer)) cfg)"
    by (auto simp: download_hour_def Let_def split: if_splits sum.splits prod.splits)
  with assms(1) build_url_keeps [OF assms(1)] show ?thesis
    by (auto simp: same_tables_refl)
qed




lemma download_hours_Cons:
  assumes "download_hours client layer out (h # hs) cfg w = (r, cfg', w')"
  obtains r1 cfg1 w1 where "download_hour client layer out h cfg w = (r1, cfg1, w1)"
    and "(\<exists>e. r1 = Inl e \<and> r = r1 \<and> cfg' = cfg1 \<and> w' = w1) \<or>
         (r1 = Inr () \<and> download_hours client layer out hs cfg1 w1 = (r, cfg', w'))"
proof -
  obtain r1 cfg1 w1 where s: "download_hour client layer out h cfg w = (r1, cfg1, w1)"
    by (cases "download_hour client layer out h cfg w")
  with assms have "(\<exists>e. r1 = Inl e \<and> r = r1 \<and> cfg' = cfg1 \<and> w' = w1) \<or>
         (r1 = Inr () \<and> download_hours client layer out hs cfg1 w1 = (r, cfg', w'))"
    by (cases r1) auto
  with s show ?thesis by (rule that)
qed

lemma download_hours_config:
  "memo_ok cfg \<Longrightarrow> download_hours client layer out hs cfg w = (r, cfg', w') \<Longrightarrow>
   memo_ok cfg' \<and> same_tables cfg cfg'"
proof (induction hs arbitrary: cfg w)
  case Nil
  then show ?case by (simp add: same_tables_refl)
next
  case (Cons h hs)
  from Cons.prems(2) obtain r1 cfg1 w1
    where s: "download_hour client layer out h cfg w = (r1, cfg1, w1)"
      and t: "(\<exists>e. r1 = Inl e \<and> r = r1 \<and> cfg' = cfg1 \<and> w' = w1) \<or>
         (r1 = Inr () \<and> download_hours client layer out hs cfg1 w1 = (r, cfg', w'))"
    by (rule download_hours_Cons)
  from download_hour_config [OF Cons.prems(1) s]
  have c1: "memo_ok cfg1" "same_tables cfg cfg1" by simp_all
  from t show ?case
  proof
    assume "\<exists>e. r1 = Inl e \<and> r = r1 \<and> cfg' = cfg1 \<and> w' = w1"
    with c1 show ?thesis by auto
  next
    assume "r1 = Inr () \<and> download_hours client layer out hs cfg1 w1 = (r, cfg', w')"
    with Cons.IH [OF c1(1)] have "memo_ok cfg' \<and> same_tables cfg1 cfg'" by blast
    with c1 show ?thesis by (auto intro: same_tables_trans)
  qed
qed






















lemma example_paths:
  "path_join [''out''] ''a/./b//c'' = [''out'', ''a'', ''b'', ''c'']"
  "path_join [''out''] [] = [''out'']"
  "path_join [''out''] ''/abs/d'' = [''/'', ''abs'', ''d'']"
  "path_join [''out''] ''//abs'' = [''//'', ''abs'']"
  "path_join [''out''] ''///abs/../d'' = [''/'', ''abs'', ''..'', ''d'']"
  by code_simp+

section \<open>Properties of the download loop\<close>




end
